theory Spec2Isabelle
  imports Main "HOL-Library.AList" "HOL-Library.List_Lexorder"
begin

section \<open>Python values\<close>

text \<open>
  A Python \<open>str\<close> is a sequence of Unicode code points: \<open>len\<close> counts code points and
  \<open>t[:n]\<close> keeps the first \<open>n\<close> of them. A string is therefore a list of code points
  (natural numbers); \<open>lit\<close> turns an ASCII literal into such a list. The order on strings
  is the lexicographic order on code points, as Python's \<open><\<close> on \<open>str\<close>.
\<close>

type_synonym pystr = "nat list"

definition lit :: "string \<Rightarrow> pystr" where
  "lit s = map of_char s"

text \<open>The values a docstore entry or a retrieved content can hold: \<open>None\<close> or a \<open>str\<close>.\<close>

datatype pyval = PNone | PStr pystr

text \<open>\<open>str(v)\<close>, also what an f-string substitutes.\<close>

fun py_str :: "pyval \<Rightarrow> pystr" where
  "py_str PNone = lit ''None''"
| "py_str (PStr s) = s"

datatype pyexc =
    ValueError
  | TypeError
  | UnpicklingError
  | JSONDecodeError
  | ExternalError nat

section \<open>utils.py: base64 heuristic\<close>

text \<open>
  The character class \<open>[A-Za-z0-9+/\n\r]\<close> of the pattern
  \<open>^[A-Za-z0-9+/\n\r]+=*$\<close>.
\<close>

definition b64_class :: "nat \<Rightarrow> bool" where
  "b64_class c \<longleftrightarrow>
     (65 \<le> c \<and> c \<le> 90) \<or> (97 \<le> c \<and> c \<le> 122) \<or> (48 \<le> c \<and> c \<le> 57)
     \<or> c = 43 \<or> c = 47 \<or> c = 10 \<or> c = 13"

text \<open>
  \<open>[A-Za-z0-9+/\n\r]+=*\<close> up to the very end of the string: the class and \<open>=\<close>
  (code point 61) are disjoint, so the class run is the longest prefix in the class.
\<close>

definition b64_body :: "pystr \<Rightarrow> bool" where
  "b64_body s \<longleftrightarrow> takeWhile b64_class s \<noteq> [] \<and> list_all (\<lambda>c. c = 61) (dropWhile b64_class s)"

text \<open>
  \<open>b64_pattern.match(s)\<close>. Without \<open>re.MULTILINE\<close>, \<open>$\<close> matches at the end of the
  string and also just before a newline that ends the string.
\<close>

definition b64_pattern_match :: "pystr \<Rightarrow> bool" where
  "b64_pattern_match s \<longleftrightarrow> b64_body s \<or> (s \<noteq> [] \<and> last s = 10 \<and> b64_body (butlast s))"

fun is_base64_image :: "pyval \<Rightarrow> bool" where
  "is_base64_image PNone = False"
| "is_base64_image (PStr text) =
     (if length text < 200 then False else b64_pattern_match (take 500 text))"

text \<open>
  The alphabet named by the classification property: ASCII letters and digits,
  \<open>+\<close>, \<open>/\<close> and \<open>=\<close>.
\<close>

definition alnum_plus_slash_eq :: "nat \<Rightarrow> bool" where
  "alnum_plus_slash_eq c \<longleftrightarrow>
     (65 \<le> c \<and> c \<le> 90) \<or> (97 \<le> c \<and> c \<le> 122) \<or> (48 \<le> c \<and> c \<le> 57)
     \<or> c = 43 \<or> c = 47 \<or> c = 61"

section \<open>rag\_chain.py: document parsing\<close>

text \<open>
  A retrieved item is a \<open>str\<close>, an object with a \<open>page_content\<close> attribute, or any
  other object, which \<open>parse_docs\<close> renders with \<open>str(doc)\<close>.
\<close>

datatype retrieved = RStr pystr | RDocument pyval | ROther pystr

fun doc_content :: "retrieved \<Rightarrow> pyval" where
  "doc_content (RStr s) = PStr s"
| "doc_content (RDocument page_content) = page_content"
| "doc_content (ROther rendering) = PStr rendering"

record parsed =
  doc_texts :: "pyval list"
  doc_images :: "pyval list"

fun parse_loop :: "retrieved list \<Rightarrow> parsed \<Rightarrow> parsed" where
  "parse_loop [] acc = acc"
| "parse_loop (doc # docs) acc =
     (let content = doc_content doc
      in if is_base64_image content
         then parse_loop docs (acc\<lparr>doc_images := doc_images acc @ [content]\<rparr>)
         else parse_loop docs (acc\<lparr>doc_texts := doc_texts acc @ [content]\<rparr>))"

definition parse_docs :: "retrieved list \<Rightarrow> parsed" where
  "parse_docs docs = parse_loop docs \<lparr>doc_texts = [], doc_images = []\<rparr>"

section \<open>utils.py: docstore persistence\<close>

text \<open>
  \<open>InMemoryStore\<close> wraps a Python \<open>dict\<close>. A \<open>dict\<close> keeps insertion order: it is an
  association list, where \<open>AList.update\<close> overwrites the value of a key in place and
  appends a new key at the end, as \<open>d[key] = value\<close> does. \<open>mget\<close> is
  \<open>[d.get(key) for key in keys]\<close> (\<open>None\<close> for a missing key), \<open>mset\<close> assigns the
  pairs in order, \<open>yield_keys\<close> iterates over the keys.
\<close>

type_synonym store = "(pystr \<times> pyval) list"

definition yield_keys :: "store \<Rightarrow> pystr list" where
  "yield_keys st = map fst st"

definition dict_get :: "store \<Rightarrow> pystr \<Rightarrow> pyval" where
  "dict_get st key = (case map_of st key of None \<Rightarrow> PNone | Some v \<Rightarrow> v)"

definition mget :: "store \<Rightarrow> pystr list \<Rightarrow> pyval list" where
  "mget st keys = map (dict_get st) keys"

definition mset :: "store \<Rightarrow> (pystr \<times> pyval) list \<Rightarrow> store" where
  "mset st key_value_pairs = fold (\<lambda>(key, v). AList.update key v) key_value_pairs st"

text \<open>
  The files the program writes: a pickled \<open>dict\<close> and a JSON list of strings.
  \<open>pickle.load\<close> after \<open>pickle.dump\<close>, and \<open>json.load\<close> after \<open>json.dump\<close>, give back
  the value written; reading a file of the other kind raises. The file system is a map
  from paths to files; directories and I/O failures are not modelled.
\<close>

datatype disk_file = Pickled store | Json "pystr list"

type_synonym filesystem = "pystr \<rightharpoonup> disk_file"

text \<open>The body of the loop of \<open>save_docstore\<close>, and the \<open>dict\<close> it builds.\<close>

definition save_step :: "store \<Rightarrow> pystr \<Rightarrow> store \<Rightarrow> store" where
  "save_step st key internal =
     (case mget st [key] of
        [] \<Rightarrow> internal
      | v # _ \<Rightarrow> if v \<noteq> PNone then AList.update key v internal else internal)"

definition save_internal :: "store \<Rightarrow> store" where
  "save_internal st = fold (save_step st) (yield_keys st) []"

definition save_docstore :: "store \<Rightarrow> pystr \<Rightarrow> filesystem \<Rightarrow> filesystem" where
  "save_docstore st path fs = fs(path \<mapsto> Pickled (save_internal st))"

definition load_docstore :: "pystr \<Rightarrow> filesystem \<Rightarrow> pyexc + store" where
  "load_docstore path fs =
     (case fs path of
        None \<Rightarrow> Inr []
      | Some (Pickled internal) \<Rightarrow> Inr (if internal \<noteq> [] then mset [] internal else [])
      | Some (Json _) \<Rightarrow> Inl UnpicklingError)"

section \<open>utils.py: indexed-PDF registry\<close>

definition load_indexed_pdfs :: "pystr \<Rightarrow> filesystem \<Rightarrow> pyexc + pystr set" where
  "load_indexed_pdfs json_path fs =
     (case fs json_path of
        None \<Rightarrow> Inr {}
      | Some (Json names) \<Rightarrow> Inr (set names)
      | Some (Pickled _) \<Rightarrow> Inl JSONDecodeError)"

definition save_indexed_pdf :: "pystr \<Rightarrow> pystr \<Rightarrow> filesystem \<Rightarrow> pyexc + filesystem" where
  "save_indexed_pdf filename json_path fs =
     (case load_indexed_pdfs json_path fs of
        Inl exc \<Rightarrow> Inl exc
      | Inr existing \<Rightarrow>
          Inr (fs(json_path \<mapsto> Json (sorted_list_of_set (insert filename existing)))))"

section \<open>summarizer.py\<close>

text \<open>
  A request to the model is one human message: a list of content parts. The model is
  outside the program, so its behaviour is a parameter: \<open>llm n m\<close> is the outcome of the
  request made for the unit at position \<open>n\<close> with message \<open>m\<close>, either the reply or the
  exception raised. The position lets the same content succeed at one time and fail at
  another; for a text it is its index in \<open>texts\<close>, for an image the \<open>idx\<close> of
  \<open>enumerate(images_b64, 1)\<close>. Only exceptions that \<open>except Exception\<close> catches are
  outcomes of a request. Console output is not modelled.
\<close>

datatype part = TextPart pystr | ImageUrlPart pystr

type_synonym message = "part list"

type_synonym model = "nat \<Rightarrow> message \<Rightarrow> pyexc + pystr"

definition TEXT_SUMMARY_PROMPT :: pystr where
  "TEXT_SUMMARY_PROMPT =
     lit ''You are a document analysis assistant. ''
     @ lit ''Provide a concise, factual summary of the following text or table element. ''
     @ lit ''Do NOT add any preamble '' @ [8212] @ lit '' go straight to the summary.'' @ [10, 10]"



definition text_summary_prompt :: "pystr \<Rightarrow> message" where
  "text_summary_prompt element = [TextPart (TEXT_SUMMARY_PROMPT @ element)]"


text \<open>
  \<open>chain.batch(inputs)\<close> runs the chain on every input and returns the replies in input
  order; when a request raises, the exception of the first failing input propagates.
\<close>

fun collect :: "(pyexc + 'a) list \<Rightarrow> pyexc + 'a list" where
  "collect [] = Inr []"
| "collect (Inl exc # _) = Inl exc"
| "collect (Inr x # rest) = (case collect rest of Inl exc \<Rightarrow> Inl exc | Inr xs \<Rightarrow> Inr (x # xs))"

definition chain_batch :: "model \<Rightarrow> nat \<Rightarrow> pystr list \<Rightarrow> pyexc + pystr list" where
  "chain_batch llm i inputs =
     collect (map (\<lambda>(n, element). llm n (text_summary_prompt element)) (enumerate i inputs))"

text \<open>\<open>range(0, stop, step)\<close> for a positive \<open>step\<close>.\<close>

definition py_range :: "nat \<Rightarrow> nat \<Rightarrow> nat list" where
  "py_range stop step = map (\<lambda>k. k * step) [0..<(stop + step - 1) div step]"

text \<open>
  The state of a summarising loop: the \<open>summaries\<close> list and, as the record of the
  external calls made, the requests of each call in order.
\<close>

record summary_run =
  run_summaries :: "pystr list"
  run_calls :: "message list list"

definition text_batch_step :: "model \<Rightarrow> pystr list \<Rightarrow> nat \<Rightarrow> nat \<Rightarrow> summary_run \<Rightarrow> summary_run" where
  "text_batch_step llm texts concurrency i run =
     (let batch = take concurrency (drop i texts);
          inputs = map text_summary_prompt batch
      in case chain_batch llm i batch of
           Inr results \<Rightarrow>
             run\<lparr>run_summaries := run_summaries run @ results, run_calls := run_calls run @ [inputs]\<rparr>
         | Inl exc \<Rightarrow>
             run\<lparr>run_summaries := run_summaries run @ map (take 500) batch,
                 run_calls := run_calls run @ [inputs]\<rparr>)"

text \<open>
  \<open>range(0, len(texts), concurrency)\<close> raises \<open>ValueError\<close> for a zero step and is empty
  for a negative one; \<open>texts[i : i + concurrency]\<close> is \<open>take concurrency (drop i texts)\<close>.
\<close>

definition summarise_texts :: "model \<Rightarrow> pystr list \<Rightarrow> int \<Rightarrow> pyexc + summary_run" where
  "summarise_texts llm texts concurrency =
     (if texts = [] then Inr \<lparr>run_summaries = [], run_calls = []\<rparr>
      else if concurrency = 0 then Inl ValueError
      else if concurrency < 0 then Inr \<lparr>run_summaries = [], run_calls = []\<rparr>
      else Inr (fold (text_batch_step llm texts (nat concurrency))
                  (py_range (length texts) (nat concurrency))
                  \<lparr>run_summaries = [], run_calls = []\<rparr>))"






section \<open>vectorstore.py: indexing\<close>

text \<open>
  A record of the embedding store is a document: its text and its metadata. The stores,
  the files and the identifier generator are the state that indexing changes. The
  embedding store is a list of records that \<open>add_documents\<close> extends;
  \<open>uuid4 n\<close> is the \<open>n\<close>-th identifier that the generator hands out, and
  \<open>w_uuids\<close> counts the identifiers drawn so far. \<open>w_trace\<close> records the writes to the
  stores and to the disk in the order they happen.
\<close>

record document =
  page_content :: pystr
  metadata :: "(pystr \<times> pystr) list"

definition ID_KEY :: pystr where
  "ID_KEY = lit ''doc_id''"

datatype event =
    AddDocuments "document list"
  | MSet "(pystr \<times> pyval) list"
  | Dump pystr store

record world =
  w_vectorstore :: "document list"
  w_docstore :: store
  w_files :: filesystem
  w_uuids :: nat
  w_trace :: "event list"

text \<open>
  \<open>vectorstore.add_documents\<close> embeds the texts and stores the records; the embedding
  call is external and may raise, which \<open>embed_documents\<close> decides. Nothing is stored
  when it raises.
\<close>

definition add_documents ::
  "(pystr list \<Rightarrow> pyexc option) \<Rightarrow> document list \<Rightarrow> document list \<Rightarrow> pyexc + document list" where
  "add_documents embed_documents vectorstore docs =
     (case embed_documents (map page_content docs) of
        Some exc \<Rightarrow> Inl exc
      | None \<Rightarrow> Inr (vectorstore @ docs))"

definition add_texts_to_store ::
  "(nat \<Rightarrow> pystr) \<Rightarrow> (pystr list \<Rightarrow> pyexc option) \<Rightarrow> world \<Rightarrow> pystr list \<Rightarrow> pystr list \<Rightarrow> pystr
     \<Rightarrow> pyexc option \<times> world" where
  "add_texts_to_store uuid4 embed_documents w summaries originals docstore_path =
     (if summaries = [] then (None, w)
      else
        let doc_ids = map (\<lambda>n. uuid4 (w_uuids w + n)) [0..<length summaries];
            w1 = w\<lparr>w_uuids := w_uuids w + length summaries\<rparr>;
            summary_docs =
              map (\<lambda>(i, s). \<lparr>page_content = s, metadata = [(ID_KEY, doc_ids ! i)]\<rparr>)
                (enumerate 0 summaries)
        in case add_documents embed_documents (w_vectorstore w1) summary_docs of
             Inl exc \<Rightarrow> (Some exc, w1)
           | Inr vectorstore \<Rightarrow>
               let w2 = w1\<lparr>w_vectorstore := vectorstore,
                         w_trace := w_trace w1 @ [AddDocuments summary_docs]\<rparr>;
                   pairs = zip doc_ids (map PStr originals);
                   w3 = w2\<lparr>w_docstore := mset (w_docstore w2) pairs,
                         w_trace := w_trace w2 @ [MSet pairs]\<rparr>;
                   w4 = w3\<lparr>w_files := save_docstore (w_docstore w3) docstore_path (w_files w3),
                         w_trace := w_trace w3
                           @ [Dump docstore_path (save_internal (w_docstore w3))]\<rparr>
               in (None, w4))"

section \<open>vectorstore.py: retrieval\<close>

text \<open>
  \<open>get_retriever\<close> builds a \<open>MultiVectorRetriever\<close> of the LangChain library over the
  two stores, with \<open>id_key = "doc_id"\<close> and \<open>k = 6\<close> unless \<open>search_kwargs\<close> gives
  another \<open>k\<close>. The retriever reads the stores as they are when it is invoked. Its
  \<open>invoke\<close> is library code: it runs the similarity search, collects the \<open>id_key\<close>
  metadata of the matches in order without repetition, looks the identifiers up with
  \<open>docstore.mget\<close>, and returns the values that are not \<open>None\<close>. The similarity search
  (embedding the query, nearest neighbours) is a parameter.
\<close>

record retriever =
  r_id_key :: pystr
  r_k :: nat

definition get_retriever :: "nat option \<Rightarrow> retriever" where
  "get_retriever search_kwargs =
     \<lparr>r_id_key = ID_KEY, r_k = (case search_kwargs of None \<Rightarrow> 6 | Some k \<Rightarrow> k)\<rparr>"

fun matched_ids :: "pystr \<Rightarrow> document list \<Rightarrow> pystr list \<Rightarrow> pystr list" where
  "matched_ids id_key [] ids = ids"
| "matched_ids id_key (d # sub_docs) ids =
     (case map_of (metadata d) id_key of
        Some doc_id \<Rightarrow>
          if doc_id \<notin> set ids then matched_ids id_key sub_docs (ids @ [doc_id])
          else matched_ids id_key sub_docs ids
      | None \<Rightarrow> matched_ids id_key sub_docs ids)"

type_synonym search = "document list \<Rightarrow> pystr \<Rightarrow> nat \<Rightarrow> pyexc + document list"

definition retriever_invoke :: "search \<Rightarrow> retriever \<Rightarrow> world \<Rightarrow> pystr \<Rightarrow> pyexc + pyval list" where
  "retriever_invoke similarity_search r w query =
     (case similarity_search (w_vectorstore w) query (r_k r) of
        Inl exc \<Rightarrow> Inl exc
      | Inr sub_docs \<Rightarrow>
          let ids = matched_ids (r_id_key r) sub_docs [];
              docs = mget (w_docstore w) ids
          in Inr (filter (\<lambda>d. d \<noteq> PNone) docs))"

section \<open>rag\_chain.py: answering\<close>

text \<open>A docstore value as \<open>parse_docs\<close> sees it; \<open>str(None)\<close> is \<open>"None"\<close>.\<close>

fun as_retrieved :: "pyval \<Rightarrow> retrieved" where
  "as_retrieved (PStr s) = RStr s"
| "as_retrieved PNone = ROther (lit ''None'')"

fun py_join :: "pystr \<Rightarrow> pystr list \<Rightarrow> pystr" where
  "py_join sep [] = []"
| "py_join sep [s] = s"
| "py_join sep (s # rest) = s @ sep @ py_join sep rest"

definition RAG_INSTRUCTION :: pystr where
  "RAG_INSTRUCTION =
     lit ''You are a knowledgeable assistant. Answer the user's question using ONLY ''
     @ lit ''the provided context (text, tables, and images). If the context does not ''
     @ lit ''contain the answer, say so honestly.'' @ [10, 10]"

text \<open>
  \<open>str.join\<close> raises \<open>TypeError\<close> on an item that is not a \<open>str\<close>. The chain
  is given the question itself (\<open>inputs\<close> when it is a \<open>str\<close>).
\<close>

definition build_prompt :: "parsed \<Rightarrow> pystr \<Rightarrow> pyexc + message" where
  "build_prompt parsed question =
     (if PNone \<in> set (doc_texts parsed) then Inl TypeError
      else
        let context_text =
              (if doc_texts parsed \<noteq> []
               then py_join ([10, 10] @ lit ''---'' @ [10, 10]) (map py_str (doc_texts parsed))
               else []);
            instruction =
              RAG_INSTRUCTION
              @ (if context_text \<noteq> [] then lit ''CONTEXT:'' @ [10] @ context_text @ [10, 10] else [])
              @ lit ''QUESTION:'' @ [10] @ question
        in Inr (TextPart instruction
                # map (\<lambda>img_b64. ImageUrlPart (lit ''data:image/jpeg;base64,'' @ py_str img_b64))
                    (doc_images parsed)))"

record rag_answer =
  answer :: pystr
  sources :: "pyval list"
  image_count :: nat

definition answer_and_sources ::
  "search \<Rightarrow> (message \<Rightarrow> pyexc + pystr) \<Rightarrow> retriever \<Rightarrow> world \<Rightarrow> pystr \<Rightarrow> pyexc + rag_answer" where
  "answer_and_sources similarity_search llm r w question =
     (case retriever_invoke similarity_search r w question of
        Inl exc \<Rightarrow> Inl exc
      | Inr raw_docs \<Rightarrow>
          let parsed = parse_docs (map as_retrieved raw_docs)
          in case build_prompt parsed question of
               Inl exc \<Rightarrow> Inl exc
             | Inr prompt \<Rightarrow>
                 (case llm prompt of
                    Inl exc \<Rightarrow> Inl exc
                  | Inr content \<Rightarrow>
                      Inr \<lparr>answer = content, sources = doc_texts parsed,
                           image_count = length (doc_images parsed)\<rparr>))"

section \<open>Properties of the base64 heuristic\<close>

lemma lit_simps [simp]: "lit [] = []" "lit (c # cs) = of_char c # lit cs"
  by (simp_all add: lit_def)

lemma length_lit [simp]: "length (lit s) = length s"
  by (simp add: lit_def)

text \<open>
  The executable matcher agrees with the pattern read as a language: a non-empty run of
  class characters followed by a run of \<open>=\<close>.
\<close>

lemma b64_body_iff:
  "b64_body s \<longleftrightarrow>
     (\<exists>a b. s = a @ b \<and> a \<noteq> [] \<and> list_all b64_class a \<and> list_all (\<lambda>c. c = 61) b)"
proof
  assume "b64_body s"
  then show "\<exists>a b. s = a @ b \<and> a \<noteq> [] \<and> list_all b64_class a \<and> list_all (\<lambda>c. c = 61) b"
    unfolding b64_body_def
    by (intro exI[of _ "takeWhile b64_class s"] exI[of _ "dropWhile b64_class s"])
       (auto simp: list_all_iff dest: set_takeWhileD)
next
  assume "\<exists>a b. s = a @ b \<and> a \<noteq> [] \<and> list_all b64_class a \<and> list_all (\<lambda>c. c = 61) b"
  then obtain a b where s: "s = a @ b" and a: "a \<noteq> []" "list_all b64_class a"
    and b: "list_all (\<lambda>c. c = 61) b" by blast
  have nb: "\<forall>c\<in>set b. \<not> b64_class c"
    using b by (auto simp: list_all_iff b64_class_def)
  have tw: "takeWhile b64_class s = a"
    using a nb unfolding s by (cases b) (auto simp: list_all_iff)
  have dw: "dropWhile b64_class s = b"
    using a nb unfolding s by (cases b) (auto simp: list_all_iff)
  show "b64_body s" unfolding b64_body_def tw dw using a b by simp
qed

lemma b64_class_A: "b64_class 65"
  by (simp add: b64_class_def)

lemma b64_class_eq: "\<not> b64_class 61"
  by (simp add: b64_class_def)

lemma takeWhile_replicate_append:
  "P x \<Longrightarrow> takeWhile P (replicate n x @ ys) = replicate n x @ takeWhile P ys"
  by (induction n) simp_all

lemma dropWhile_replicate_append:
  "P x \<Longrightarrow> dropWhile P (replicate n x @ ys) = dropWhile P ys"
  by (induction n) simp_all

lemma is_base64_image_long:
  assumes "200 \<le> length text" "length text \<le> 500"
    and "text = body @ padding" "body \<noteq> []"
    and "list_all b64_class body" "list_all (\<lambda>c. c = 61) padding"
  shows "is_base64_image (PStr text)"
proof -
  have "b64_body text"
    using assms(3-6) b64_body_iff by blast
  then show ?thesis
    using assms(1,2) by (simp add: b64_pattern_match_def)
qed

lemma is_base64_image_short: "length text < 200 \<Longrightarrow> \<not> is_base64_image (PStr text)"
  by simp

text \<open>
  C6, as stated, fails: the 300-character string \<open>'A' * 100 + '=' + 'A' * 199\<close> consists
  purely of alphanumerics and \<open>=\<close>, yet the pattern allows \<open>=\<close> only as a trailing run,
  so \<open>is_base64_image\<close> returns \<open>False\<close>.
\<close>

theorem is_base64_image_inner_padding_counterexample:
  "length (replicate 100 65 @ [61] @ replicate 199 65 :: pystr) = 300
   \<and> list_all alnum_plus_slash_eq (replicate 100 65 @ [61] @ replicate 199 65)
   \<and> \<not> is_base64_image (PStr (replicate 100 65 @ [61] @ replicate 199 65))"
  by (simp add: b64_pattern_match_def b64_body_def takeWhile_replicate_append
      dropWhile_replicate_append b64_class_A b64_class_eq list_all_iff alnum_plus_slash_eq_def)

text \<open>
  C6, amended: \<open>is_base64_image\<close> returns \<open>True\<close> for every 300-character string made of
  one or more characters of \<open>[A-Za-z0-9+/\n\r]\<close> followed only by \<open>=\<close> padding (so for
  every 300-character string of alphanumerics, \<open>+\<close> and \<open>/\<close>), and returns
  \<open>False\<close> for every string shorter than 200 characters.
\<close>

theorem is_base64_image_classification:
  "(length text = 300 \<and> text = body @ padding \<and> body \<noteq> []
      \<and> list_all b64_class body \<and> list_all (\<lambda>c. c = 61) padding
      \<longrightarrow> is_base64_image (PStr text))
   \<and> (length prose < 200 \<longrightarrow> \<not> is_base64_image (PStr prose))"
proof (intro conjI impI)
  assume h: "length text = 300 \<and> text = body @ padding \<and> body \<noteq> []
      \<and> list_all b64_class body \<and> list_all (\<lambda>c. c = 61) padding"
  show "is_base64_image (PStr text)"
  proof (rule is_base64_image_long[where body = body and padding = padding])
    from h have "length text = 300" by blast
    then show "200 \<le> length text" "length text \<le> 500" by simp_all
    show "text = body @ padding" "body \<noteq> []" using h by simp_all
    show "list_all b64_class body" "list_all (\<lambda>c. c = 61) padding" using h by simp_all
  qed
next
  assume "length prose < 200"
  then show "\<not> is_base64_image (PStr prose)"
    by (rule is_base64_image_short)
qed

theorem is_base64_image_classification_witness:
  "is_base64_image (PStr (replicate 298 65 @ [61, 61]))
   \<and> \<not> is_base64_image (PStr (lit ''Revenue grew 10%''))"
proof -
  have h: "length (replicate 298 65 @ [61, 61] :: pystr) = 300
      \<and> replicate 298 65 @ [61, 61] = replicate 298 65 @ [61, 61 :: nat]
      \<and> replicate 298 (65 :: nat) \<noteq> []
      \<and> list_all b64_class (replicate 298 65) \<and> list_all (\<lambda>c. c = 61) [61, 61 :: nat]"
    by (simp add: list_all_iff b64_class_A)
  have s: "length (lit ''Revenue grew 10%'') < 200"
    by simp
  show ?thesis
    using is_base64_image_classification
      [of "replicate 298 65 @ [61, 61]" "replicate 298 65" "[61, 61]" "lit ''Revenue grew 10%''"]
      h s
    by blast
qed

section \<open>Properties of document parsing\<close>

lemma parse_loop_texts:
  "doc_texts (parse_loop docs acc)
     = doc_texts acc @ filter (\<lambda>c. \<not> is_base64_image c) (map doc_content docs)"
  by (induction docs arbitrary: acc) (simp_all add: Let_def)

lemma parse_loop_images:
  "doc_images (parse_loop docs acc) = doc_images acc @ filter is_base64_image (map doc_content docs)"
  by (induction docs arbitrary: acc) (simp_all add: Let_def)

text \<open>
  C9: \<open>parse_docs\<close> partitions its input. The \<open>images\<close> list is the contents that
  \<open>is_base64_image\<close> accepts, the \<open>texts\<close> list the contents it rejects, each in input
  order; so every document lands in exactly one list and the lengths add up.
\<close>

theorem parse_docs_partition:
  "doc_images (parse_docs docs) = filter is_base64_image (map doc_content docs)
   \<and> doc_texts (parse_docs docs) = filter (\<lambda>c. \<not> is_base64_image c) (map doc_content docs)
   \<and> length (doc_texts (parse_docs docs)) + length (doc_images (parse_docs docs)) = length docs"
proof -
  have i: "doc_images (parse_docs docs) = filter is_base64_image (map doc_content docs)"
    by (simp add: parse_docs_def parse_loop_images)
  have t: "doc_texts (parse_docs docs) = filter (\<lambda>c. \<not> is_base64_image c) (map doc_content docs)"
    by (simp add: parse_docs_def parse_loop_texts)
  have "length (filter (\<lambda>c. \<not> is_base64_image c) (map doc_content docs))
        + length (filter is_base64_image (map doc_content docs)) = length (map doc_content docs)"
    using sum_length_filter_compl[of is_base64_image "map doc_content docs"] by simp
  with i t show ?thesis by simp
qed

theorem parse_docs_partition_witness:
  "doc_images (parse_docs [RStr (lit ''Revenue''), RStr (replicate 200 65), ROther (lit ''None'')])
     = [PStr (replicate 200 65)]
   \<and> doc_texts (parse_docs [RStr (lit ''Revenue''), RStr (replicate 200 65), ROther (lit ''None'')])
     = [PStr (lit ''Revenue''), PStr (lit ''None'')]"
  using parse_docs_partition
    [of "[RStr (lit ''Revenue''), RStr (replicate 200 65), ROther (lit ''None'')]"]
  by (simp add: b64_pattern_match_def b64_body_def b64_class_A takeWhile_replicate)

section \<open>Properties of docstore persistence\<close>


lemma map_of_mset: "map_of (mset st kvs) = map_of st ++ map_of (rev kvs)"
  unfolding mset_def
proof (induction kvs arbitrary: st)
  case Nil
  then show ?case by simp
next
  case (Cons kv kvs)
  obtain k v where kv: "kv = (k, v)" by (cases kv)
  have "map_of (fold (\<lambda>(key, v). AList.update key v) kvs (AList.update k v st))
        = map_of (AList.update k v st) ++ map_of (rev kvs)"
    by (rule Cons.IH)
  then show ?case
    by (simp add: kv update_conv' map_add_upd_left map_add_def fun_eq_iff split: option.splits)
qed

lemma map_of_save_step:
  "map_of (save_step st key acc) k
     = (if k = key \<and> dict_get st k \<noteq> PNone then Some (dict_get st k) else map_of acc k)"
  by (auto simp add: save_step_def mget_def update_conv')

lemma map_of_fold_save_step:
  "map_of (fold (save_step st) keys acc) k
     = (if k \<in> set keys \<and> dict_get st k \<noteq> PNone then Some (dict_get st k) else map_of acc k)"
proof (induction keys arbitrary: acc)
  case Nil
  then show ?case by simp
next
  case (Cons key keys)
  have "map_of (fold (save_step st) (key # keys) acc) k
        = map_of (fold (save_step st) keys (save_step st key acc)) k"
    by simp
  also have "\<dots> = (if k \<in> set keys \<and> dict_get st k \<noteq> PNone then Some (dict_get st k)
                    else map_of (save_step st key acc) k)"
    by (rule Cons.IH)
  finally show ?case
    by (auto simp add: map_of_save_step)
qed

lemma map_of_save_internal:
  "map_of (save_internal st) k
     = (case map_of st k of None \<Rightarrow> None | Some v \<Rightarrow> if v = PNone then None else Some v)"
proof (cases "map_of st k")
  case None
  then have "dict_get st k = PNone" by (simp add: dict_get_def)
  then show ?thesis using None
    by (simp add: save_internal_def map_of_fold_save_step)
next
  case (Some v)
  then have "k \<in> set (yield_keys st)"
    by (metis yield_keys_def map_of_eq_None_iff option.distinct(1) set_map)
  moreover have "dict_get st k = v" using Some by (simp add: dict_get_def)
  ultimately show ?thesis using Some
    by (simp add: save_internal_def map_of_fold_save_step)
qed

lemma dict_get_save_internal: "dict_get (save_internal st) k = dict_get st k"
  by (simp add: dict_get_def map_of_save_internal split: option.splits)

lemma update_fresh: "k \<notin> fst ` set al \<Longrightarrow> AList.update k v al = al @ [(k, v)]"
  by (induction al) auto

lemma mset_fresh:
  "distinct (map fst kvs) \<Longrightarrow> fst ` set st \<inter> fst ` set kvs = {} \<Longrightarrow> mset st kvs = st @ kvs"
  unfolding mset_def
proof (induction kvs arbitrary: st)
  case Nil
  then show ?case by simp
next
  case (Cons kv kvs)
  obtain k v where kv: "kv = (k, v)" by (cases kv)
  have fresh: "k \<notin> fst ` set st" using Cons.prems(2) by (auto simp: kv)
  have step: "AList.update k v st = st @ [(k, v)]" by (rule update_fresh[OF fresh])
  have d: "distinct (map fst kvs)" using Cons.prems(1) by simp
  have "fst ` set (st @ [(k, v)]) \<inter> fst ` set kvs = {}"
    using Cons.prems by (auto simp: kv)
  from Cons.IH[OF d this] show ?case
    by (simp add: kv step)
qed

lemma distinct_save_step:
  "distinct (map fst acc) \<Longrightarrow> distinct (map fst (save_step st key acc))"
  by (simp add: save_step_def mget_def distinct_update)

lemma distinct_fold_save_step:
  "distinct (map fst acc) \<Longrightarrow> distinct (map fst (fold (save_step st) keys acc))"
  by (induction keys arbitrary: acc) (simp_all add: distinct_save_step)

lemma distinct_save_internal: "distinct (map fst (save_internal st))"
  by (simp add: save_internal_def distinct_fold_save_step)

lemma load_save_docstore:
  "load_docstore path (save_docstore st path fs) = Inr (save_internal st)"
proof -
  have "mset [] (save_internal st) = save_internal st"
    using mset_fresh[OF distinct_save_internal, of "[]" st] by simp
  then show ?thesis
    by (simp add: load_docstore_def save_docstore_def)
qed

lemma fold_save_step_suffix:
  "st = pre @ suf \<Longrightarrow> distinct (map fst st) \<Longrightarrow> fst ` set acc \<subseteq> fst ` set pre \<Longrightarrow>
   fold (save_step st) (map fst suf) acc = acc @ filter (\<lambda>(k, v). v \<noteq> PNone) suf"
proof (induction suf arbitrary: pre acc)
  case Nil
  then show ?case by simp
next
  case (Cons kv suf)
  obtain k v where kv: "kv = (k, v)" by (cases kv)
  have "(k, v) \<in> set st" using Cons.prems(1) by (simp add: kv)
  then have get: "dict_get st k = v"
    using Cons.prems(2) by (simp add: dict_get_def)
  have "k \<notin> fst ` set pre"
    using Cons.prems(1,2) by (auto simp: kv)
  then have fresh: "k \<notin> fst ` set acc" using Cons.prems(3) by blast
  have step: "save_step st k acc = (if v \<noteq> PNone then acc @ [(k, v)] else acc)"
    by (simp add: save_step_def mget_def get update_fresh[OF fresh])
  have st': "st = (pre @ [(k, v)]) @ suf" using Cons.prems(1) by (simp add: kv)
  have sub: "fst ` set (save_step st k acc) \<subseteq> fst ` set (pre @ [(k, v)])"
    using Cons.prems(3) by (auto simp: step)
  from Cons.IH[OF st' Cons.prems(2) sub] show ?case
    by (simp add: kv step)
qed

lemma save_internal_distinct:
  "distinct (yield_keys st) \<Longrightarrow> save_internal st = filter (\<lambda>(k, v). v \<noteq> PNone) st"
  using fold_save_step_suffix[of st "[]" st "[]"]
  by (simp add: save_internal_def yield_keys_def)

lemma keys_save_internal:
  "set (yield_keys (save_internal st)) = {k \<in> set (yield_keys st). dict_get st k \<noteq> PNone}"
proof -
  have "k \<in> set (yield_keys (save_internal st)) \<longleftrightarrow> k \<in> set (yield_keys st) \<and> dict_get st k \<noteq> PNone" for k
  proof -
    have "k \<in> set (yield_keys (save_internal st)) \<longleftrightarrow> map_of (save_internal st) k \<noteq> None"
      by (simp add: yield_keys_def map_of_eq_None_iff)
    also have "\<dots> \<longleftrightarrow> map_of st k \<noteq> None \<and> dict_get st k \<noteq> PNone"
      by (simp add: map_of_save_internal dict_get_def split: option.splits)
    also have "\<dots> \<longleftrightarrow> k \<in> set (yield_keys st) \<and> dict_get st k \<noteq> PNone"
      by (simp add: yield_keys_def map_of_eq_None_iff)
    finally show ?thesis .
  qed
  then show ?thesis by blast
qed

lemma dict_get_not_none:
  "PNone \<notin> snd ` set st \<Longrightarrow> k \<in> set (yield_keys st) \<Longrightarrow> dict_get st k \<noteq> PNone"
proof -
  assume nn: "PNone \<notin> snd ` set st" and k: "k \<in> set (yield_keys st)"
  from k obtain v where v: "map_of st k = Some v"
    by (metis yield_keys_def map_of_eq_None_iff not_Some_eq set_map)
  then have "(k, v) \<in> set st" by (rule map_of_SomeD)
  then have "v \<noteq> PNone" using nn by force
  then show ?thesis using v by (simp add: dict_get_def)
qed

text \<open>
  C4, as stated, fails: a store that maps a key to \<open>None\<close> is reloaded without that key,
  because \<open>save_docstore\<close> skips values that are \<open>None\<close>.
\<close>

theorem docstore_reload_none_counterexample:
  "load_docstore (lit ''docstore.pkl'')
      (save_docstore [(lit ''k'', PNone)] (lit ''docstore.pkl'') Map.empty) = Inr []
   \<and> yield_keys [(lit ''k'', PNone)] \<noteq> yield_keys []"
  by (simp add: load_docstore_def save_docstore_def save_internal_def save_step_def
      mget_def dict_get_def yield_keys_def)

text \<open>
  C4, amended: saving a docstore and loading it again gives a store in which every
  \<open>mget\<close> returns what it returned before, and whose keys are the keys of the original
  that are not bound to \<open>None\<close>; when no value is \<open>None\<close> the keys are the same, and
  (for a \<open>dict\<close>, whose keys are distinct) the reloaded store is the original one.
  Loading from a path where no file exists gives the empty store.
\<close>

theorem docstore_reload:
  "(\<exists>st'. load_docstore path (save_docstore st path fs) = Inr st'
       \<and> mget st' keys = mget st keys
       \<and> set (yield_keys st') = {k \<in> set (yield_keys st). dict_get st k \<noteq> PNone}
       \<and> (PNone \<notin> snd ` set st \<longrightarrow> set (yield_keys st') = set (yield_keys st))
       \<and> (PNone \<notin> snd ` set st \<and> distinct (yield_keys st) \<longrightarrow> st' = st))
   \<and> (fs' path' = None \<longrightarrow> load_docstore path' fs' = Inr [])"
proof (intro conjI exI[of _ "save_internal st"] impI)
  show "load_docstore path (save_docstore st path fs) = Inr (save_internal st)"
    by (rule load_save_docstore)
  show "mget (save_internal st) keys = mget st keys"
    by (simp add: mget_def dict_get_save_internal)
  show "set (yield_keys (save_internal st)) = {k \<in> set (yield_keys st). dict_get st k \<noteq> PNone}"
    by (rule keys_save_internal)
  show "set (yield_keys (save_internal st)) = set (yield_keys st)" if "PNone \<notin> snd ` set st"
    using that dict_get_not_none[of st] by (auto simp: keys_save_internal)
  show "save_internal st = st" if h: "PNone \<notin> snd ` set st \<and> distinct (yield_keys st)"
  proof -
    have "filter (\<lambda>(k, v). v \<noteq> PNone) st = st"
      using h by (intro filter_True) force
    then show ?thesis using h by (simp add: save_internal_distinct)
  qed
  show "load_docstore path' fs' = Inr []" if "fs' path' = None"
    using that by (simp add: load_docstore_def)
qed

text \<open>
  C10: the snapshot written by \<open>save_docstore\<close> holds exactly the entries whose value is
  not \<open>None\<close>: a key bound to \<open>None\<close> is absent from it, and loading the snapshot
  restores exactly the other entries.
\<close>

theorem save_docstore_drops_none:
  "\<exists>internal st'. save_docstore st path fs path = Some (Pickled internal)
      \<and> load_docstore path (save_docstore st path fs) = Inr st'
      \<and> (map_of st k = Some PNone \<longrightarrow> k \<notin> set (yield_keys internal))
      \<and> (map_of internal k = Some v \<longleftrightarrow> map_of st k = Some v \<and> v \<noteq> PNone)
      \<and> (map_of st' k = Some v \<longleftrightarrow> map_of st k = Some v \<and> v \<noteq> PNone)
      \<and> (distinct (yield_keys st) \<longrightarrow> st' = filter (\<lambda>(k, v). v \<noteq> PNone) st)"
proof (intro exI[of _ "save_internal st"] conjI impI)
  show "save_docstore st path fs path = Some (Pickled (save_internal st))"
    by (simp add: save_docstore_def)
  show "load_docstore path (save_docstore st path fs) = Inr (save_internal st)"
    by (rule load_save_docstore)
  show "k \<notin> set (yield_keys (save_internal st))" if "map_of st k = Some PNone"
    using that by (simp add: keys_save_internal dict_get_def)
  show "map_of (save_internal st) k = Some v \<longleftrightarrow> map_of st k = Some v \<and> v \<noteq> PNone"
    by (auto simp: map_of_save_internal split: option.splits)
  then show "map_of (save_internal st) k = Some v \<longleftrightarrow> map_of st k = Some v \<and> v \<noteq> PNone" .
  show "save_internal st = filter (\<lambda>(k, v). v \<noteq> PNone) st" if "distinct (yield_keys st)"
    using that by (rule save_internal_distinct)
qed

theorem docstore_reload_witness:
  "load_docstore (lit ''docstore.pkl'')
      (save_docstore [(lit ''id1'', PStr (lit ''Revenue grew 10%'')), (lit ''id2'', PStr (lit ''Staff count is 50''))]
         (lit ''docstore.pkl'') Map.empty)
     = Inr [(lit ''id1'', PStr (lit ''Revenue grew 10%'')), (lit ''id2'', PStr (lit ''Staff count is 50''))]
   \<and> load_docstore (lit ''docstore.pkl'') Map.empty = Inr []"
  using docstore_reload
    [of "lit ''docstore.pkl''"
        "[(lit ''id1'', PStr (lit ''Revenue grew 10%'')), (lit ''id2'', PStr (lit ''Staff count is 50''))]"
        Map.empty "[lit ''id1'']" Map.empty "lit ''docstore.pkl''"]
  by (auto simp: yield_keys_def)

theorem save_docstore_drops_none_witness:
  "map_of [(lit ''id1'', PStr (lit ''Revenue grew 10%'')), (lit ''id2'', PNone)] (lit ''id2'') = Some PNone
   \<and> load_docstore (lit ''docstore.pkl'')
      (save_docstore [(lit ''id1'', PStr (lit ''Revenue grew 10%'')), (lit ''id2'', PNone)]
         (lit ''docstore.pkl'') Map.empty)
     = Inr [(lit ''id1'', PStr (lit ''Revenue grew 10%''))]"
  using save_docstore_drops_none
    [of "[(lit ''id1'', PStr (lit ''Revenue grew 10%'')), (lit ''id2'', PNone)]"
        "lit ''docstore.pkl''" Map.empty "lit ''id2''" PNone]
  by (auto simp: yield_keys_def)

section \<open>Properties of the registry\<close>

lemma count_list_distinct: "distinct xs \<Longrightarrow> x \<in> set xs \<Longrightarrow> count_list xs x = 1"
  by (induction xs) auto

lemma load_indexed_pdfs_finite: "load_indexed_pdfs json_path fs = Inr existing \<Longrightarrow> finite existing"
  by (auto simp: load_indexed_pdfs_def split: option.splits disk_file.splits)

text \<open>
  C8: registering the same name twice leaves a registry file that holds the name exactly
  once; the file is a sorted list without duplicates, and the second registration changes
  nothing.
\<close>

theorem save_indexed_pdf_idempotent:
  assumes "load_indexed_pdfs json_path fs = Inr existing"
  shows "\<exists>fs1 fs2 names.
           save_indexed_pdf filename json_path fs = Inr fs1
         \<and> save_indexed_pdf filename json_path fs1 = Inr fs2
         \<and> fs2 json_path = Some (Json names)
         \<and> count_list names filename = 1
         \<and> sorted names \<and> distinct names
         \<and> set names = insert filename existing
         \<and> fs2 = fs1"
proof -
  define names where "names = sorted_list_of_set (insert filename existing)"
  define fs1 where "fs1 = fs(json_path \<mapsto> Json names)"
  have fin: "finite (insert filename existing)"
    using load_indexed_pdfs_finite[OF assms] by simp
  have set_names: "set names = insert filename existing"
    unfolding names_def using fin by (rule set_sorted_list_of_set)
  have first: "save_indexed_pdf filename json_path fs = Inr fs1"
    by (simp add: save_indexed_pdf_def assms fs1_def names_def)
  have reload: "load_indexed_pdfs json_path fs1 = Inr (insert filename existing)"
    by (simp add: load_indexed_pdfs_def fs1_def set_names)
  have second: "save_indexed_pdf filename json_path fs1 = Inr fs1"
    unfolding save_indexed_pdf_def reload by (simp add: fs1_def names_def)
  have d: "distinct names" by (simp add: names_def)
  have c: "count_list names filename = 1"
    by (rule count_list_distinct[OF d]) (simp add: set_names)
  have s: "sorted names" by (simp add: names_def)
  have f: "fs1 json_path = Some (Json names)" by (simp add: fs1_def)
  from first second f c s d set_names show ?thesis by blast
qed

theorem save_indexed_pdf_idempotent_witness:
  "load_indexed_pdfs (lit ''indexed_pdfs.json'')
      [lit ''indexed_pdfs.json'' \<mapsto> Json [lit ''c.pdf'', lit ''a.pdf'']]
     = Inr {lit ''c.pdf'', lit ''a.pdf''}
   \<and> (\<exists>fs1 fs2 names.
           save_indexed_pdf (lit ''b.pdf'') (lit ''indexed_pdfs.json'')
             [lit ''indexed_pdfs.json'' \<mapsto> Json [lit ''c.pdf'', lit ''a.pdf'']] = Inr fs1
         \<and> save_indexed_pdf (lit ''b.pdf'') (lit ''indexed_pdfs.json'') fs1 = Inr fs2
         \<and> fs2 (lit ''indexed_pdfs.json'') = Some (Json names)
         \<and> count_list names (lit ''b.pdf'') = 1
         \<and> sorted names \<and> distinct names
         \<and> set names = {lit ''b.pdf'', lit ''c.pdf'', lit ''a.pdf''}
         \<and> fs2 = fs1)"
proof -
  have h: "load_indexed_pdfs (lit ''indexed_pdfs.json'')
      [lit ''indexed_pdfs.json'' \<mapsto> Json [lit ''c.pdf'', lit ''a.pdf'']]
     = Inr {lit ''c.pdf'', lit ''a.pdf''}"
    by (simp add: load_indexed_pdfs_def)
  show ?thesis
    using h save_indexed_pdf_idempotent[OF h, of "lit ''b.pdf''"] by simp
qed

lemma registry_example:
  "save_indexed_pdf (lit ''b.pdf'') (lit ''r'') [lit ''r'' \<mapsto> Json [lit ''c.pdf'', lit ''a.pdf'']]
   = Inr [lit ''r'' \<mapsto> Json [lit ''a.pdf'', lit ''b.pdf'', lit ''c.pdf'']]"
  by (simp add: save_indexed_pdf_def load_indexed_pdfs_def)

section \<open>Properties of the summariser\<close>

























text \<open>Outside the positive batch sizes the loop does not run.\<close>

lemma summarise_texts_zero:
  "texts \<noteq> [] \<Longrightarrow> summarise_texts llm texts 0 = Inl ValueError"
  by (simp add: summarise_texts_def)

lemma summarise_texts_negative:
  "texts \<noteq> [] \<Longrightarrow> concurrency < 0 \<Longrightarrow>
   summarise_texts llm texts concurrency = Inr \<lparr>run_summaries = [], run_calls = []\<rparr>"
  by (simp add: summarise_texts_def)




section \<open>Properties of indexing\<close>

lemma doc_ids_upt: "map (\<lambda>n. uuid4 (u + n)) [0..<k] = map uuid4 [u..<u + k]"
proof -
  have "map (\<lambda>n. uuid4 (u + n)) [0..<k] = map uuid4 (map (\<lambda>n. n + u) [0..<k])"
    by (simp add: o_def add.commute)
  also have "map (\<lambda>n. n + u) [0..<k] = [u..<k + u]" by (rule map_add_upt)
  finally show ?thesis by (simp add: add.commute)
qed

lemma summary_docs_zip:
  assumes "length doc_ids = length summaries"
  shows "map (\<lambda>(i, s). \<lparr>page_content = s, metadata = [(ID_KEY, doc_ids ! i)]\<rparr>)
           (enumerate 0 summaries)
         = map2 (\<lambda>s d. \<lparr>page_content = s, metadata = [(ID_KEY, d)]\<rparr>) summaries doc_ids"
  using assms by (intro nth_equalityI) (simp_all add: nth_enumerate_eq)

lemma page_content_summary_docs:
  "length doc_ids = length summaries \<Longrightarrow>
   map page_content (map2 (\<lambda>s d. \<lparr>page_content = s, metadata = [(ID_KEY, d)]\<rparr>) summaries doc_ids)
   = summaries"
  by (intro nth_equalityI) simp_all

lemma add_texts_to_store_empty:
  "add_texts_to_store uuid4 embed_documents w [] originals docstore_path = (None, w)"
  by (simp add: add_texts_to_store_def)

lemma add_texts_to_store_ok:
  fixes uuid4 :: "nat \<Rightarrow> pystr" and w :: world and summaries originals :: "pystr list"
  assumes ne: "summaries \<noteq> []" and ok: "embed_documents summaries = None"
  defines "doc_ids \<equiv> map uuid4 [w_uuids w..<w_uuids w + length summaries]"
  defines "summary_docs \<equiv>
     map2 (\<lambda>s d. \<lparr>page_content = s, metadata = [(ID_KEY, d)]\<rparr>) summaries doc_ids"
  defines "pairs \<equiv> zip doc_ids (map PStr originals)"
  shows "add_texts_to_store uuid4 embed_documents w summaries originals docstore_path =
     (None,
      \<lparr>w_vectorstore = w_vectorstore w @ summary_docs,
       w_docstore = mset (w_docstore w) pairs,
       w_files = (w_files w)(docstore_path \<mapsto> Pickled (save_internal (mset (w_docstore w) pairs))),
       w_uuids = w_uuids w + length summaries,
       w_trace = w_trace w @ [AddDocuments summary_docs, MSet pairs,
                               Dump docstore_path (save_internal (mset (w_docstore w) pairs))]\<rparr>)"
proof -
  have len: "length (map (\<lambda>n. uuid4 (w_uuids w + n)) [0..<length summaries]) = length summaries"
    by simp
  have ids: "map (\<lambda>n. uuid4 (w_uuids w + n)) [0..<length summaries] = doc_ids"
    unfolding doc_ids_def by (rule doc_ids_upt)
  have docs: "map (\<lambda>(i, s). \<lparr>page_content = s,
                  metadata = [(ID_KEY, map (\<lambda>n. uuid4 (w_uuids w + n)) [0..<length summaries] ! i)]\<rparr>)
                (enumerate 0 summaries) = summary_docs"
    unfolding summary_docs_def ids[symmetric] by (rule summary_docs_zip[OF len])
  have pc: "map page_content summary_docs = summaries"
    unfolding summary_docs_def by (rule page_content_summary_docs) (simp add: doc_ids_def)
  have add: "add_documents embed_documents (w_vectorstore w) summary_docs
             = Inr (w_vectorstore w @ summary_docs)"
    by (simp add: add_documents_def pc ok)
  show ?thesis
    unfolding add_texts_to_store_def Let_def docs
    using ne by (simp add: add ids pairs_def save_docstore_def)
qed

lemma add_texts_to_store_embed_fails:
  assumes ne: "summaries \<noteq> []" and bad: "embed_documents summaries = Some exc"
  shows "add_texts_to_store uuid4 embed_documents w summaries originals docstore_path =
     (Some exc, w\<lparr>w_uuids := w_uuids w + length summaries\<rparr>)"
proof -
  define doc_ids where "doc_ids = map (\<lambda>n. uuid4 (w_uuids w + n)) [0..<length summaries]"
  define summary_docs where "summary_docs =
     map (\<lambda>(i, s). \<lparr>page_content = s, metadata = [(ID_KEY, doc_ids ! i)]\<rparr>) (enumerate 0 summaries)"
  have len: "length doc_ids = length summaries" by (simp add: doc_ids_def)
  have pc: "map page_content summary_docs = summaries"
    unfolding summary_docs_def summary_docs_zip[OF len]
    by (rule page_content_summary_docs[OF len])
  have add: "add_documents embed_documents (w_vectorstore w) summary_docs = Inl exc"
    by (simp add: add_documents_def pc bad)
  show ?thesis
    unfolding add_texts_to_store_def Let_def doc_ids_def[symmetric] summary_docs_def[symmetric]
    using ne by (simp add: add)
qed

lemma fresh_ids:
  assumes "inj uuid4"
  shows "distinct (map uuid4 [u..<u + k])"
    and "set (map uuid4 [u..<u + k]) \<inter> uuid4 ` {..<u} = {}"
proof -
  show "distinct (map uuid4 [u..<u + k])"
    using assms by (simp add: distinct_map inj_on_def inj_def)
  show "set (map uuid4 [u..<u + k]) \<inter> uuid4 ` {..<u} = {}"
  proof -
    have "uuid4 a \<noteq> uuid4 b" if "u \<le> a" "b < u" for a b
      using that injD[OF assms, of a b] by auto
    then show ?thesis by fastforce
  qed
qed

lemma map_of_rev_distinct:
  assumes "distinct (map fst kvs)"
  shows "map_of (rev kvs) = map_of kvs"
proof (rule ext)
  fix k
  have d: "distinct (map fst (rev kvs))" using assms by (simp add: rev_map[symmetric])
  show "map_of (rev kvs) k = map_of kvs k"
  proof (cases "map_of kvs k")
    case None
    then have "map_of (rev kvs) k = None" by (simp add: map_of_eq_None_iff)
    then show ?thesis using None by simp
  next
    case (Some v)
    then have "(k, v) \<in> set (rev kvs)" using map_of_SomeD by fastforce
    then show ?thesis using d Some by simp
  qed
qed

lemma mget_new_ids:
  assumes d: "distinct doc_ids" and len: "length values = length doc_ids"
  shows "mget (mset st (zip doc_ids values)) doc_ids = values"
proof (rule nth_equalityI)
  show "length (mget (mset st (zip doc_ids values)) doc_ids) = length values"
    by (simp add: mget_def len)
next
  fix i assume "i < length (mget (mset st (zip doc_ids values)) doc_ids)"
  then have i: "i < length doc_ids" by (simp add: mget_def)
  have dz: "distinct (map fst (zip doc_ids values))" using d len by simp
  have "(doc_ids ! i, values ! i) \<in> set (zip doc_ids values)"
    using i len by (auto simp: set_zip)
  then have "map_of (zip doc_ids values) (doc_ids ! i) = Some (values ! i)"
    using dz by simp
  then have "map_of (mset st (zip doc_ids values)) (doc_ids ! i) = Some (values ! i)"
    by (simp add: map_of_mset map_of_rev_distinct[OF dz])
  then show "mget (mset st (zip doc_ids values)) doc_ids ! i = values ! i"
    using i by (simp add: mget_def dict_get_def)
qed

lemma no_none_mset:
  assumes "PNone \<notin> snd ` set st" and "PNone \<notin> snd ` set kvs"
  shows "k \<in> set (yield_keys (mset st kvs)) \<Longrightarrow> dict_get (mset st kvs) k \<noteq> PNone"
proof -
  assume "k \<in> set (yield_keys (mset st kvs))"
  then obtain v where v: "map_of (mset st kvs) k = Some v"
    by (metis yield_keys_def map_of_eq_None_iff not_Some_eq set_map)
  then have "map_of (rev kvs) k = Some v \<or> map_of st k = Some v"
    by (auto simp: map_of_mset map_add_def split: option.splits)
  then have "(k, v) \<in> set kvs \<or> (k, v) \<in> set st"
    using map_of_SomeD by fastforce
  then have "v \<noteq> PNone" using assms by force
  then show ?thesis using v by (simp add: dict_get_def)
qed

text \<open>
  C3: \<open>add_texts_to_store\<close> changes nothing when \<open>summaries\<close> is empty. Otherwise it
  draws one identifier per summary from the generator (the identifiers depend on the
  generator and on how many were drawn before, never on the content; an injective
  generator gives identifiers that are distinct and differ from all earlier ones, so
  indexing the same content again adds new entries), appends one record per summary to
  the embedding store with the summary as content and the identifier as metadata, writes
  the (identifier, original) pairs into the docstore, and writes the snapshot of the
  docstore to the given path, in this order. The snapshot answers every lookup as the
  docstore does and has the same keys when the docstore held no \<open>None\<close>. When the
  embedding call raises, neither the docstore nor the disk is touched.
\<close>

theorem add_texts_to_store_steps:
  fixes uuid4 :: "nat \<Rightarrow> pystr" and w :: world and summaries originals :: "pystr list"
  shows
  "(summaries = [] \<longrightarrow>
      add_texts_to_store uuid4 embed_documents w summaries originals docstore_path = (None, w))
   \<and> (summaries \<noteq> [] \<and> embed_documents summaries = None \<longrightarrow>
        (\<exists>w' doc_ids summary_docs pairs snapshot.
            add_texts_to_store uuid4 embed_documents w summaries originals docstore_path = (None, w')
          \<and> doc_ids = map uuid4 [w_uuids w..<w_uuids w + length summaries]
          \<and> summary_docs
              = map2 (\<lambda>s d. \<lparr>page_content = s, metadata = [(ID_KEY, d)]\<rparr>) summaries doc_ids
          \<and> pairs = zip doc_ids (map PStr originals)
          \<and> snapshot = save_internal (w_docstore w')
          \<and> w_vectorstore w' = w_vectorstore w @ summary_docs
          \<and> w_docstore w' = mset (w_docstore w) pairs
          \<and> w_files w' = (w_files w)(docstore_path \<mapsto> Pickled snapshot)
          \<and> w_uuids w' = w_uuids w + length summaries
          \<and> w_trace w' = w_trace w @ [AddDocuments summary_docs, MSet pairs,
                                       Dump docstore_path snapshot]
          \<and> mget snapshot keys = mget (w_docstore w') keys
          \<and> (PNone \<notin> snd ` set (w_docstore w) \<longrightarrow>
                set (yield_keys snapshot) = set (yield_keys (w_docstore w')))
          \<and> (inj uuid4 \<longrightarrow> distinct doc_ids \<and> set doc_ids \<inter> uuid4 ` {..<w_uuids w} = {})
          \<and> (inj uuid4 \<and> length originals = length summaries \<longrightarrow>
                mget (w_docstore w') doc_ids = map PStr originals)))
   \<and> (summaries \<noteq> [] \<and> embed_documents summaries = Some exc \<longrightarrow>
        add_texts_to_store uuid4 embed_documents w summaries originals docstore_path
          = (Some exc, w\<lparr>w_uuids := w_uuids w + length summaries\<rparr>))"
proof (intro conjI impI)
  show "add_texts_to_store uuid4 embed_documents w summaries originals docstore_path = (None, w)"
    if "summaries = []"
    using that by (simp add: add_texts_to_store_empty)
next
  assume h: "summaries \<noteq> [] \<and> embed_documents summaries = None"
  define doc_ids where "doc_ids = map uuid4 [w_uuids w..<w_uuids w + length summaries]"
  define summary_docs where "summary_docs
      = map2 (\<lambda>s d. \<lparr>page_content = s, metadata = [(ID_KEY, d)]\<rparr>) summaries doc_ids"
  define pairs where "pairs = zip doc_ids (map PStr originals)"
  define st' where "st' = mset (w_docstore w) pairs"
  define snapshot where "snapshot = save_internal st'"
  define w' where "w' =
      \<lparr>w_vectorstore = w_vectorstore w @ summary_docs,
       w_docstore = st',
       w_files = (w_files w)(docstore_path \<mapsto> Pickled snapshot),
       w_uuids = w_uuids w + length summaries,
       w_trace = w_trace w @ [AddDocuments summary_docs, MSet pairs,
                               Dump docstore_path snapshot]\<rparr>"
  have run: "add_texts_to_store uuid4 embed_documents w summaries originals docstore_path = (None, w')"
    using add_texts_to_store_ok[of summaries embed_documents uuid4 w originals docstore_path] h
    by (simp add: w'_def snapshot_def st'_def pairs_def summary_docs_def doc_ids_def)
  have lookups: "mget snapshot keys = mget st' keys"
    by (simp add: snapshot_def mget_def dict_get_save_internal)
  have strs: "PNone \<notin> snd ` set pairs"
    by (auto simp: pairs_def dest!: set_zip_rightD)
  have full: "set (yield_keys snapshot) = set (yield_keys st')"
    if nn: "PNone \<notin> snd ` set (w_docstore w)"
    unfolding snapshot_def keys_save_internal st'_def
    using no_none_mset[OF nn strs] by blast
  have fresh: "distinct doc_ids \<and> set doc_ids \<inter> uuid4 ` {..<w_uuids w} = {}" if "inj uuid4"
    unfolding doc_ids_def using fresh_ids[OF that] by blast
  have resolve: "mget st' doc_ids = map PStr originals"
    if "inj uuid4 \<and> length originals = length summaries"
    unfolding st'_def pairs_def
  proof (rule mget_new_ids)
    show "distinct doc_ids" using fresh that by blast
    show "length (map PStr originals) = length doc_ids" using that by (simp add: doc_ids_def)
  qed
  show "\<exists>w' doc_ids summary_docs pairs snapshot.
            add_texts_to_store uuid4 embed_documents w summaries originals docstore_path = (None, w')
          \<and> doc_ids = map uuid4 [w_uuids w..<w_uuids w + length summaries]
          \<and> summary_docs
              = map2 (\<lambda>s d. \<lparr>page_content = s, metadata = [(ID_KEY, d)]\<rparr>) summaries doc_ids
          \<and> pairs = zip doc_ids (map PStr originals)
          \<and> snapshot = save_internal (w_docstore w')
          \<and> w_vectorstore w' = w_vectorstore w @ summary_docs
          \<and> w_docstore w' = mset (w_docstore w) pairs
          \<and> w_files w' = (w_files w)(docstore_path \<mapsto> Pickled snapshot)
          \<and> w_uuids w' = w_uuids w + length summaries
          \<and> w_trace w' = w_trace w @ [AddDocuments summary_docs, MSet pairs,
                                       Dump docstore_path snapshot]
          \<and> mget snapshot keys = mget (w_docstore w') keys
          \<and> (PNone \<notin> snd ` set (w_docstore w) \<longrightarrow>
                set (yield_keys snapshot) = set (yield_keys (w_docstore w')))
          \<and> (inj uuid4 \<longrightarrow> distinct doc_ids \<and> set doc_ids \<inter> uuid4 ` {..<w_uuids w} = {})
          \<and> (inj uuid4 \<and> length originals = length summaries \<longrightarrow>
                mget (w_docstore w') doc_ids = map PStr originals)"
  proof (rule exI[of _ w'], rule exI[of _ doc_ids], rule exI[of _ summary_docs],
      rule exI[of _ pairs], rule exI[of _ snapshot], intro conjI impI)
    show "add_texts_to_store uuid4 embed_documents w summaries originals docstore_path = (None, w')"
      by (rule run)
    show "doc_ids = map uuid4 [w_uuids w..<w_uuids w + length summaries]" by (rule doc_ids_def)
    show "summary_docs
          = map2 (\<lambda>s d. \<lparr>page_content = s, metadata = [(ID_KEY, d)]\<rparr>) summaries doc_ids"
      by (rule summary_docs_def)
    show "pairs = zip doc_ids (map PStr originals)" by (rule pairs_def)
    show "snapshot = save_internal (w_docstore w')" by (simp add: snapshot_def w'_def)
    show "w_vectorstore w' = w_vectorstore w @ summary_docs" by (simp add: w'_def)
    show "w_docstore w' = mset (w_docstore w) pairs" by (simp add: w'_def st'_def)
    show "w_files w' = (w_files w)(docstore_path \<mapsto> Pickled snapshot)" by (simp add: w'_def)
    show "w_uuids w' = w_uuids w + length summaries" by (simp add: w'_def)
    show "w_trace w' = w_trace w @ [AddDocuments summary_docs, MSet pairs,
                                     Dump docstore_path snapshot]"
      by (simp add: w'_def)
    show "mget snapshot keys = mget (w_docstore w') keys" using lookups by (simp add: w'_def)
    show "set (yield_keys snapshot) = set (yield_keys (w_docstore w'))"
      if "PNone \<notin> snd ` set (w_docstore w)"
      using full[OF that] by (simp add: w'_def)
    show "distinct doc_ids" if "inj uuid4" using fresh[OF that] by blast
    show "set doc_ids \<inter> uuid4 ` {..<w_uuids w} = {}" if "inj uuid4" using fresh[OF that] by blast
    show "mget (w_docstore w') doc_ids = map PStr originals"
      if "inj uuid4 \<and> length originals = length summaries"
      using resolve[OF that] by (simp add: w'_def)
  qed
next
  assume "summaries \<noteq> [] \<and> embed_documents summaries = Some exc"
  then show "add_texts_to_store uuid4 embed_documents w summaries originals docstore_path
          = (Some exc, w\<lparr>w_uuids := w_uuids w + length summaries\<rparr>)"
    by (simp add: add_texts_to_store_embed_fails)
qed

lemma inj_single: "inj (\<lambda>n::nat. [n])"
  by (simp add: inj_def)

theorem add_texts_to_store_steps_witness:
  "add_texts_to_store (\<lambda>n. [n]) (\<lambda>_. None)
      \<lparr>w_vectorstore = [], w_docstore = [], w_files = Map.empty, w_uuids = 0, w_trace = []\<rparr>
      [] [] (lit ''docstore.pkl'')
     = (None, \<lparr>w_vectorstore = [], w_docstore = [], w_files = Map.empty, w_uuids = 0, w_trace = []\<rparr>)
   \<and> (\<exists>w'. add_texts_to_store (\<lambda>n. [n]) (\<lambda>_. None)
          \<lparr>w_vectorstore = [], w_docstore = [], w_files = Map.empty, w_uuids = 0, w_trace = []\<rparr>
          [lit ''sum1'', lit ''sum2''] [lit ''orig1'', lit ''orig2''] (lit ''docstore.pkl'')
         = (None, w')
       \<and> w_vectorstore w'
           = [\<lparr>page_content = lit ''sum1'', metadata = [(ID_KEY, [0])]\<rparr>,
              \<lparr>page_content = lit ''sum2'', metadata = [(ID_KEY, [1])]\<rparr>]
       \<and> w_docstore w' = [([0], PStr (lit ''orig1'')), ([1], PStr (lit ''orig2''))]
       \<and> mget (w_docstore w') [[0], [1]] = [PStr (lit ''orig1''), PStr (lit ''orig2'')]
       \<and> w_uuids w' = 2)"
proof -
  let ?w = "\<lparr>w_vectorstore = [], w_docstore = [], w_files = Map.empty, w_uuids = 0, w_trace = []\<rparr>"
  let ?u = "\<lambda>n::nat. [n]"
  let ?e = "\<lambda>_::pystr list. None :: pyexc option"
  note t0 = add_texts_to_store_steps[of "[]" ?u ?e ?w "[]" "lit ''docstore.pkl''" "[]" ValueError]
  note t1 = add_texts_to_store_steps[of "[lit ''sum1'', lit ''sum2'']" ?u ?e ?w
      "[lit ''orig1'', lit ''orig2'']" "lit ''docstore.pkl''" "[]" ValueError]
  have a: "add_texts_to_store ?u ?e ?w [] [] (lit ''docstore.pkl'') = (None, ?w)"
    using t0 by simp
  have n: "[lit ''sum1'', lit ''sum2''] \<noteq> [] \<and> ?e [lit ''sum1'', lit ''sum2''] = None" by simp
  have up: "[0..<2] = [0, Suc 0]" by (simp add: upt_rec)
  from t1 n inj_single obtain w' where
    r: "add_texts_to_store ?u ?e ?w [lit ''sum1'', lit ''sum2''] [lit ''orig1'', lit ''orig2'']
          (lit ''docstore.pkl'') = (None, w')"
    and v: "w_vectorstore w' = w_vectorstore ?w
          @ map2 (\<lambda>s d. \<lparr>page_content = s, metadata = [(ID_KEY, d)]\<rparr>)
              [lit ''sum1'', lit ''sum2'']
              (map ?u [w_uuids ?w..<w_uuids ?w + length [lit ''sum1'', lit ''sum2'']])"
    and d: "w_docstore w' = mset (w_docstore ?w)
          (zip (map ?u [w_uuids ?w..<w_uuids ?w + length [lit ''sum1'', lit ''sum2'']])
             (map PStr [lit ''orig1'', lit ''orig2'']))"
    and u: "w_uuids w' = w_uuids ?w + length [lit ''sum1'', lit ''sum2'']"
    and m: "mget (w_docstore w') (map ?u [w_uuids ?w..<w_uuids ?w + length [lit ''sum1'', lit ''sum2'']])
          = map PStr [lit ''orig1'', lit ''orig2'']"
    by auto
  have v': "w_vectorstore w'
           = [\<lparr>page_content = lit ''sum1'', metadata = [(ID_KEY, [0])]\<rparr>,
              \<lparr>page_content = lit ''sum2'', metadata = [(ID_KEY, [1])]\<rparr>]"
    using v by (simp add: up)
  have d': "w_docstore w' = [([0], PStr (lit ''orig1'')), ([1], PStr (lit ''orig2''))]"
    using d by (simp add: up mset_def)
  have m': "mget (w_docstore w') [[0], [1]] = [PStr (lit ''orig1''), PStr (lit ''orig2'')]"
    using m by (simp add: up)
  have u': "w_uuids w' = 2" using u by simp
  from a r v' d' m' u' show ?thesis by blast
qed

section \<open>Properties of retrieval\<close>

lemma set_matched_ids:
  "set (matched_ids id_key sub_docs ids)
     = set ids \<union> {doc_id. \<exists>d\<in>set sub_docs. map_of (metadata d) id_key = Some doc_id}"
proof (induction sub_docs arbitrary: ids)
  case Nil
  then show ?case by simp
next
  case (Cons d sub_docs)
  show ?case
  proof (cases "map_of (metadata d) id_key")
    case None
    then show ?thesis by (auto simp: Cons.IH)
  next
    case (Some doc_id)
    then show ?thesis by (cases "doc_id \<in> set ids") (auto simp: Cons.IH)
  qed
qed

lemma retriever_invoke_ok:
  assumes "similarity_search (w_vectorstore w) query (r_k r) = Inr sub_docs"
  shows "retriever_invoke similarity_search r w query
         = Inr (filter (\<lambda>d. d \<noteq> PNone) (mget (w_docstore w) (matched_ids (r_id_key r) sub_docs [])))"
  by (simp add: retriever_invoke_def assms Let_def)

lemma set_retrieved:
  "set (filter (\<lambda>d. d \<noteq> PNone) (mget st (matched_ids id_key sub_docs [])))
   = {v. v \<noteq> PNone \<and> (\<exists>d\<in>set sub_docs. \<exists>doc_id.
          map_of (metadata d) id_key = Some doc_id \<and> map_of st doc_id = Some v)}"
proof -
  have "v \<in> set (filter (\<lambda>d. d \<noteq> PNone) (mget st (matched_ids id_key sub_docs [])))
        \<longleftrightarrow> v \<noteq> PNone \<and> (\<exists>d\<in>set sub_docs. \<exists>doc_id.
          map_of (metadata d) id_key = Some doc_id \<and> map_of st doc_id = Some v)" for v
  proof -
    have "v \<in> set (filter (\<lambda>d. d \<noteq> PNone) (mget st (matched_ids id_key sub_docs [])))
          \<longleftrightarrow> v \<noteq> PNone \<and> (\<exists>doc_id\<in>set (matched_ids id_key sub_docs []). dict_get st doc_id = v)"
      by (auto simp: mget_def)
    also have "\<dots> \<longleftrightarrow> v \<noteq> PNone \<and> (\<exists>doc_id\<in>set (matched_ids id_key sub_docs []).
          map_of st doc_id = Some v)"
    proof -
      have "dict_get st doc_id = v \<longleftrightarrow> map_of st doc_id = Some v" if "v \<noteq> PNone" for doc_id
        using that by (cases "map_of st doc_id") (auto simp: dict_get_def)
      then show ?thesis by blast
    qed
    also have "\<dots> \<longleftrightarrow> v \<noteq> PNone \<and> (\<exists>d\<in>set sub_docs. \<exists>doc_id.
          map_of (metadata d) id_key = Some doc_id \<and> map_of st doc_id = Some v)"
      by (auto simp: set_matched_ids)
    finally show ?thesis .
  qed
  then show ?thesis by blast
qed

lemma doc_content_as_retrieved: "doc_content (as_retrieved v) \<noteq> PNone"
  by (cases v) simp_all

lemma build_prompt_retrieved:
  "\<exists>prompt. build_prompt (parse_docs (map as_retrieved raw_docs)) question = Inr prompt"
proof -
  have "PNone \<notin> set (map doc_content (map as_retrieved raw_docs))"
    using doc_content_as_retrieved by (auto simp: image_iff) metis
  then have "PNone \<notin> set (doc_texts (parse_docs (map as_retrieved raw_docs)))"
    by (simp add: parse_docs_def parse_loop_texts)
  then show ?thesis
    by (simp add: build_prompt_def Let_def)
qed

lemma answer_and_sources_errors:
  assumes "similarity_search (w_vectorstore w) query (r_k r) = Inr sub_docs"
    and "answer_and_sources similarity_search llm r w query = Inl exc"
  shows "\<exists>prompt. llm prompt = Inl exc"
proof -
  obtain raw_docs where rd: "retriever_invoke similarity_search r w query = Inr raw_docs"
    using retriever_invoke_ok[where similarity_search = similarity_search, OF assms(1)] by blast
  obtain prompt where p: "build_prompt (parse_docs (map as_retrieved raw_docs)) query = Inr prompt"
    using build_prompt_retrieved by blast
  from assms(2) have "llm prompt = Inl exc"
    by (simp add: answer_and_sources_def rd p Let_def split: sum.splits)
  then show ?thesis by blast
qed

text \<open>
  C5, as stated, fails: a match whose identifier has no docstore entry raises nothing.
  The retriever returns an empty list and the chain answers from no context.
\<close>

theorem retrieval_dangling_id_counterexample:
  "map_of (metadata \<lparr>page_content = lit ''Revenue summary'', metadata = [(ID_KEY, lit ''id-1'')]\<rparr>)
       (r_id_key (get_retriever None)) = Some (lit ''id-1'')
   \<and> lit ''id-1'' \<notin> set (yield_keys [])
   \<and> retriever_invoke (\<lambda>vectorstore query k. Inr (take k vectorstore)) (get_retriever None)
        \<lparr>w_vectorstore = [\<lparr>page_content = lit ''Revenue summary'',
                              metadata = [(ID_KEY, lit ''id-1'')]\<rparr>],
          w_docstore = [], w_files = Map.empty, w_uuids = 1, w_trace = []\<rparr>
        (lit ''How much did revenue grow?'') = Inr []
   \<and> answer_and_sources (\<lambda>vectorstore query k. Inr (take k vectorstore)) (\<lambda>prompt. Inr (lit ''I do not know''))
        (get_retriever None)
        \<lparr>w_vectorstore = [\<lparr>page_content = lit ''Revenue summary'',
                              metadata = [(ID_KEY, lit ''id-1'')]\<rparr>],
          w_docstore = [], w_files = Map.empty, w_uuids = 1, w_trace = []\<rparr>
        (lit ''How much did revenue grow?'')
      = Inr \<lparr>answer = lit ''I do not know'', sources = [], image_count = 0\<rparr>"
  by (simp add: retriever_invoke_def answer_and_sources_def get_retriever_def mget_def
      dict_get_def yield_keys_def parse_docs_def build_prompt_def Let_def)

text \<open>
  C5, amended: when the similarity search returns, retrieval returns too: its result is
  the docstore values, other than \<open>None\<close>, of the matched identifiers in match order,
  and a matched identifier without an entry is left out without an error. The chain then
  fails only if the generation call raises.
\<close>

theorem retrieval_omits_dangling_ids:
  assumes "similarity_search (w_vectorstore w) query (r_k r) = Inr sub_docs"
  shows "\<exists>raw_docs. retriever_invoke similarity_search r w query = Inr raw_docs
      \<and> raw_docs = filter (\<lambda>d. d \<noteq> PNone)
                     (mget (w_docstore w) (matched_ids (r_id_key r) sub_docs []))
      \<and> set raw_docs = {v. v \<noteq> PNone \<and> (\<exists>d\<in>set sub_docs. \<exists>doc_id.
            map_of (metadata d) (r_id_key r) = Some doc_id
            \<and> map_of (w_docstore w) doc_id = Some v)}
      \<and> (\<forall>exc. answer_and_sources similarity_search llm r w query = Inl exc
            \<longrightarrow> (\<exists>prompt. llm prompt = Inl exc))"
proof -
  define raw_docs where "raw_docs = filter (\<lambda>d. d \<noteq> PNone)
                     (mget (w_docstore w) (matched_ids (r_id_key r) sub_docs []))"
  have a: "retriever_invoke similarity_search r w query = Inr raw_docs"
    unfolding raw_docs_def
    by (rule retriever_invoke_ok[where similarity_search = similarity_search, OF assms])
  have b: "set raw_docs = {v. v \<noteq> PNone \<and> (\<exists>d\<in>set sub_docs. \<exists>doc_id.
            map_of (metadata d) (r_id_key r) = Some doc_id
            \<and> map_of (w_docstore w) doc_id = Some v)}"
    unfolding raw_docs_def by (rule set_retrieved)
  have c: "\<forall>exc. answer_and_sources similarity_search llm r w query = Inl exc
            \<longrightarrow> (\<exists>prompt. llm prompt = Inl exc)"
    using answer_and_sources_errors[where similarity_search = similarity_search, OF assms] by blast
  from a b c raw_docs_def show ?thesis by blast
qed

theorem retrieval_omits_dangling_ids_witness:
  "retriever_invoke (\<lambda>vectorstore query k. Inr (take k vectorstore)) (get_retriever None)
        \<lparr>w_vectorstore =
            [\<lparr>page_content = lit ''Revenue summary'', metadata = [(ID_KEY, lit ''id-1'')]\<rparr>,
             \<lparr>page_content = lit ''Staff summary'', metadata = [(ID_KEY, lit ''id-2'')]\<rparr>],
          w_docstore = [(lit ''id-2'', PStr (lit ''Staff count is 50''))],
          w_files = Map.empty, w_uuids = 2, w_trace = []\<rparr>
        (lit ''How much did revenue grow?'')
     = Inr [PStr (lit ''Staff count is 50'')]"
proof -
  let ?search = "\<lambda>(vectorstore :: document list) (query :: pystr) k.
      (Inr (take k vectorstore) :: pyexc + document list)"
  let ?d1 = "\<lparr>page_content = lit ''Revenue summary'', metadata = [(ID_KEY, lit ''id-1'')]\<rparr>"
  let ?d2 = "\<lparr>page_content = lit ''Staff summary'', metadata = [(ID_KEY, lit ''id-2'')]\<rparr>"
  let ?w = "\<lparr>w_vectorstore = [?d1, ?d2],
          w_docstore = [(lit ''id-2'', PStr (lit ''Staff count is 50''))],
          w_files = Map.empty, w_uuids = 2, w_trace = []\<rparr>"
  have h: "?search (w_vectorstore ?w) (lit ''How much did revenue grow?'') (r_k (get_retriever None))
           = Inr [?d1, ?d2]"
    by (simp add: get_retriever_def)
  from retrieval_omits_dangling_ids[where similarity_search = ?search
      and llm = "\<lambda>prompt. Inr (lit ''10%'')", OF h]
  show ?thesis
    by (auto simp: get_retriever_def mget_def dict_get_def ID_KEY_def)
qed

end
